theory Spec2Isabelle
  imports Complex_Main "HOL-Library.Sublist"
begin

section \<open>Asynchronous speech transcription client: speech/grpc/transcribe-async\<close>

text \<open>
  The script parses a command line, opens an authenticated channel, submits one
  asynchronous recognition request and then polls the long-running operation until the
  service reports it done. Everything the script does to the outside world (credential
  lookup, channel creation, the two kinds of RPC, sleeping, printing) is recorded as a
  list of events in program order; everything the outside world answers is taken from an
  environment. An exception raised by a collaborator is a value of type \<open>exn\<close>; it
  is never caught by the script, so it ends the run.
\<close>

subsection \<open>Messages\<close>

text \<open>\<open>google.rpc.Status\<close>: the \<open>error\<close> field of an operation. An unset field
  reads as the default instance, whose message is the empty string.\<close>

record status =
  st_code :: int
  st_message :: string

record alternative =
  confidence :: real
  transcript :: string

record speech_result =
  alternatives :: "alternative list"

text \<open>The \<open>response\<close> field of an operation is a \<open>protobuf.Any\<close>. What
  \<open>Unpack\<close> into an \<open>AsyncRecognizeResponse\<close> can do with it: the payload is
  of another type or unset (the target message stays empty), it parses, or parsing
  raises.\<close>

datatype any = Any_other | Any_response "speech_result list" | Any_malformed

record operation =
  op_name :: string
  op_done :: bool
  op_error :: status
  op_response :: any

text \<open>The request messages, with the fields the script sets. The encoding is the name
  the script passes (a string of the command line); the sample rate of a message that
  exists is within the range of its field, which the constructor below checks.\<close>

record recognition_config =
  encoding :: string
  sample_rate :: int
  language_code :: string

record recognition_audio =
  uri :: string

record async_recognize_request =
  config :: recognition_config
  audio :: recognition_audio

subsection \<open>Effects and the environment\<close>

datatype exn = Exn string

datatype event =
    Get_access_token "string list"
  | Secure_channel string nat string
  | AsyncRecognize async_recognize_request nat
  | GetOperation string nat
  | Sleep nat
  | Print_line string
  | Print_operation operation
  | Print_operation_error status
  | Print_alternative real string

text \<open>The environment: the access token the credential provider hands out (or the
  exception it raises), the reply to the submission, and the sequence of replies to the
  successive \<open>GetOperation\<close> queries (position \<open>0\<close> is the reply to the first
  query).\<close>

record env =
  credentials :: "exn + string"
  AsyncRecognize_reply :: "exn + operation"
  GetOperation_reply :: "nat \<Rightarrow> exn + operation"

fun is_network :: "event \<Rightarrow> bool" where
  "is_network (Get_access_token _) = True"
| "is_network (Secure_channel _ _ _) = True"
| "is_network (AsyncRecognize _ _) = True"
| "is_network (GetOperation _ _) = True"
| "is_network _ = False"

fun is_GetOperation :: "event \<Rightarrow> bool" where
  "is_GetOperation (GetOperation _ _) = True"
| "is_GetOperation _ = False"

fun is_AsyncRecognize :: "event \<Rightarrow> bool" where
  "is_AsyncRecognize (AsyncRecognize _ _) = True"
| "is_AsyncRecognize _ = False"

subsection \<open>Constants and channel creation\<close>

definition DEADLINE_SECS :: nat where
  "DEADLINE_SECS = 10"

definition SPEECH_SCOPE :: string where
  "SPEECH_SCOPE = ''https://www.googleapis.com/auth/cloud-platform''"

text \<open>\<open>make_channel\<close>: fetch an access token scoped to \<open>SPEECH_SCOPE\<close>, then build
  the secure channel whose calls carry the header \<open>Bearer <token>\<close>. The channel
  itself is represented by the events that use it.\<close>

definition make_channel :: "env \<Rightarrow> string \<Rightarrow> nat \<Rightarrow> event list \<times> (exn + unit)" where
  "make_channel e host port =
     (case credentials e of
        Inl x \<Rightarrow> ([Get_access_token [SPEECH_SCOPE]], Inl x)
      | Inr token \<Rightarrow>
          ([Get_access_token [SPEECH_SCOPE], Secure_channel host port (''Bearer '' @ token)],
           Inr ()))"

subsection \<open>The poll loop\<close>

text \<open>The variables live across the loop: \<open>name\<close> (assigned once before the loop),
  \<open>operation\<close> (replaced by every reply), the events so far, and the number of
  queries issued so far, which is the position in the environment's reply sequence (the
  source has no such variable).\<close>

record poll_state =
  ps_name :: string
  ps_operation :: operation
  ps_polls :: nat
  ps_trace :: "event list"

datatype control = Next | Break | Raised exn

text \<open>One pass through the body of \<open>while True\<close> (lines 83 to 95): print, sleep one
  second, query by \<open>name\<close>, print the error if its message is non-empty, leave the
  loop if the reply is done.\<close>

definition poll_iteration :: "env \<Rightarrow> poll_state \<Rightarrow> poll_state \<times> control" where
  "poll_iteration e s =
     (let t = ps_trace s @
                [Print_line ''Waiting for server processing...'',
                 Sleep 1,
                 GetOperation (ps_name s) DEADLINE_SECS]
      in case GetOperation_reply e (ps_polls s) of
           Inl x \<Rightarrow> (s\<lparr>ps_polls := Suc (ps_polls s), ps_trace := t\<rparr>, Raised x)
         | Inr operation \<Rightarrow>
             (let t' = (if st_message (op_error operation) \<noteq> []
                        then t @ [Print_operation_error (op_error operation)]
                        else t);
                  s' = s\<lparr>ps_operation := operation, ps_polls := Suc (ps_polls s),
                          ps_trace := t'\<rparr>
              in if op_done operation then (s', Break) else (s', Next)))"

text \<open>The loop itself. It has no bound, so it is a partial function: \<open>None\<close> is the
  run that never leaves the loop.\<close>

partial_function (option) poll_loop :: "env \<Rightarrow> poll_state \<Rightarrow> (poll_state \<times> exn option) option" where
  "poll_loop e s =
     (case poll_iteration e s of
        (s', Next) \<Rightarrow> poll_loop e s'
      | (s', Break) \<Rightarrow> Some (s', None)
      | (s', Raised x) \<Rightarrow> Some (s', Some x))"

text \<open>The first \<open>n\<close> passes of the same body: the state reached and whether the loop
  is still running (\<open>Next\<close>). This is what an observer has seen of a run after
  \<open>n\<close> iterations, also of a run that never ends.\<close>

fun poll_iterations :: "env \<Rightarrow> nat \<Rightarrow> poll_state \<Rightarrow> poll_state \<times> control" where
  "poll_iterations e 0 s = (s, Next)"
| "poll_iterations e (Suc n) s =
     (case poll_iteration e s of
        (s', Next) \<Rightarrow> poll_iterations e n s'
      | (s', c) \<Rightarrow> (s', c))"

subsection \<open>main\<close>

text \<open>The messages are built by the constructors of the generated module
  \<open>cloud_speech_pb2\<close>, which is not part of the script. The file
  \<open>cloud_speech.proto\<close> that line 59 refers to declares the field \<open>sample_rate\<close>
  of \<open>RecognitionConfig\<close> as \<open>int32\<close>, and the constructor raises
  \<open>ValueError\<close> for a value outside the range of the field.\<close>

definition fits_int32 :: "int \<Rightarrow> bool" where
  "fits_int32 n = (- 2147483648 \<le> n \<and> n \<le> 2147483647)"

definition RecognitionConfig :: "string \<Rightarrow> int \<Rightarrow> string \<Rightarrow> exn + recognition_config" where
  "RecognitionConfig enc rate lang =
     (if fits_int32 rate
      then Inr \<lparr>encoding = enc, sample_rate = rate, language_code = lang\<rparr>
      else Inl (Exn ''ValueError''))"

text \<open>The argument of \<open>service.AsyncRecognize\<close> (lines 60 to 73). It is built before
  the call is made, so an exception of a constructor leaves nothing submitted.\<close>

definition recognize_request ::
  "string \<Rightarrow> string \<Rightarrow> int \<Rightarrow> string \<Rightarrow> exn + async_recognize_request" where
  "recognize_request input_uri enc rate lang =
     (case RecognitionConfig enc rate lang of
        Inl x \<Rightarrow> Inl x
      | Inr c \<Rightarrow> Inr \<lparr>config = c, audio = \<lparr>uri = input_uri\<rparr>\<rparr>)"

text \<open>Lines 55 to 81: channel, request, submission with the deadline, print of the
  handle, capture of its name. The result is the state in which the loop is entered.\<close>

definition main_prologue ::
  "env \<Rightarrow> string \<Rightarrow> string \<Rightarrow> int \<Rightarrow> string \<Rightarrow> event list \<times> (exn + poll_state)" where
  "main_prologue e input_uri enc rate lang =
     (case make_channel e ''speech.googleapis.com'' 443 of
        (t, Inl x) \<Rightarrow> (t, Inl x)
      | (t, Inr _) \<Rightarrow>
          (case recognize_request input_uri enc rate lang of
             Inl x \<Rightarrow> (t, Inl x)
           | Inr request \<Rightarrow>
               (let t1 = t @ [AsyncRecognize request DEADLINE_SECS]
                in case AsyncRecognize_reply e of
                     Inl x \<Rightarrow> (t1, Inl x)
                   | Inr operation \<Rightarrow>
                       (let t2 = t1 @ [Print_operation operation]
                        in (t2, Inr \<lparr>ps_name = op_name operation, ps_operation = operation,
                                     ps_polls = 0, ps_trace = t2\<rparr>)))))"

text \<open>Lines 97 to 104: unpack the response and print every alternative of every
  result, in the order received. A payload that does not parse raises.\<close>

definition print_result :: "speech_result \<Rightarrow> event list" where
  "print_result r =
     Print_line ''Result:'' #
     map (\<lambda>a. Print_alternative (confidence a) (transcript a)) (alternatives r)"

definition main_epilogue :: "operation \<Rightarrow> event list \<times> exn option" where
  "main_epilogue operation =
     (case op_response operation of
        Any_other \<Rightarrow> ([], None)
      | Any_response results \<Rightarrow> (concat (map print_result results), None)
      | Any_malformed \<Rightarrow> ([], Some (Exn ''DecodeError'')))"

text \<open>How a run ends. A usage error is reported by \<open>argparse\<close>: a value its
  \<open>type\<close> function rejects (argument and message or value), a value outside the
  \<open>choices\<close>, the missing \<open>input_uri\<close>, or arguments left over.\<close>

datatype usage_error =
    Invalid_type string string
  | Invalid_choice string string
  | Missing_argument string
  | Unrecognized_arguments "string list"

datatype outcome = Usage usage_error | Uncaught exn | Finished

definition finish :: "exn option \<Rightarrow> outcome" where
  "finish r = (case r of None \<Rightarrow> Finished | Some x \<Rightarrow> Uncaught x)"

definition main :: "env \<Rightarrow> string \<Rightarrow> string \<Rightarrow> int \<Rightarrow> string \<Rightarrow> (event list \<times> outcome) option" where
  "main e input_uri enc rate lang =
     (case main_prologue e input_uri enc rate lang of
        (t, Inl x) \<Rightarrow> Some (t, Uncaught x)
      | (t, Inr s) \<Rightarrow>
          (case poll_loop e s of
             None \<Rightarrow> None
           | Some (s', Some x) \<Rightarrow> Some (ps_trace s', Uncaught x)
           | Some (s', None) \<Rightarrow>
               (case main_epilogue (ps_operation s') of
                  (t', r) \<Rightarrow> Some (ps_trace s' @ t', finish r))))"

subsection \<open>The command line\<close>

text \<open>\<open>str.startswith\<close>.\<close>

definition startswith :: "string \<Rightarrow> string \<Rightarrow> bool" where
  "startswith text p = (take (length p) text = p)"

text \<open>\<open>_gcs_uri\<close> (lines 107 to 111): \<open>Inl\<close> is the \<open>ArgumentTypeError\<close> with
  its message.\<close>

definition gcs_uri :: "string \<Rightarrow> string + string" where
  "gcs_uri text =
     (if \<not> startswith text ''gs://''
      then Inl ''Cloud Storage uri must be of the form gs://bucket/path/''
      else Inr text)"

text \<open>The built-in \<open>int\<close> applied to ASCII text, which is what \<open>type=int\<close> runs on
  the option's value: surrounding blanks (space, tab, line feed, vertical tab, form feed,
  carriage return) are dropped, one sign is allowed, then decimal digits, where single
  underscores may separate digits (as Python 3 reads them). \<open>None\<close> is the
  \<open>ValueError\<close>.\<close>

definition is_space :: "char \<Rightarrow> bool" where
  "is_space c = (of_char c \<in> {9, 10, 11, 12, 13, 32 :: nat})"

definition is_digit :: "char \<Rightarrow> bool" where
  "is_digit c = (48 \<le> (of_char c :: nat) \<and> (of_char c :: nat) \<le> 57)"

definition strip :: "string \<Rightarrow> string" where
  "strip s = rev (dropWhile is_space (rev (dropWhile is_space s)))"

fun digits_value :: "nat \<Rightarrow> string \<Rightarrow> nat option" where
  "digits_value acc [] = None"
| "digits_value acc [c] =
     (if is_digit c then Some (10 * acc + (of_char c - 48)) else None)"
| "digits_value acc (c # d # ds) =
     (if \<not> is_digit c then None
      else if d = CHR ''_'' then digits_value (10 * acc + (of_char c - 48)) ds
      else digits_value (10 * acc + (of_char c - 48)) (d # ds))"

definition py_int :: "string \<Rightarrow> int option" where
  "py_int text =
     (case strip text of
        [] \<Rightarrow> None
      | c # cs \<Rightarrow>
          if c = CHR ''-'' then map_option (\<lambda>n. - int n) (digits_value 0 cs)
          else if c = CHR ''+'' then map_option int (digits_value 0 cs)
          else map_option int (digits_value 0 (c # cs)))"

text \<open>The command line as \<open>argparse\<close> sees it once it has told option strings from
  plain arguments: a sequence of plain arguments and of the two options, each option
  with the text of its value. How \<open>argparse\<close> recognises option strings (prefixes,
  \<open>=\<close>, the help flag it adds itself) is its own business and is not part of this
  model.\<close>

datatype cli_arg = Positional string | Opt_encoding string | Opt_sample_rate string

definition encoding_choices :: "string list" where
  "encoding_choices = [''LINEAR16'', ''FLAC'', ''MULAW'', ''AMR'', ''AMR_WB'']"

record namespace =
  ns_input_uri :: "string option"
  ns_encoding :: string
  ns_sample_rate :: int
  ns_extras :: "string list"

text \<open>Arguments are consumed from left to right. The first plain argument is
  \<open>input_uri\<close> and goes through \<open>_gcs_uri\<close>; further plain arguments are left
  over. An option's value goes through its \<open>choices\<close> or its \<open>type\<close>; a later
  occurrence of an option overrides an earlier one. The first failure is the one
  reported.\<close>

fun consume :: "cli_arg list \<Rightarrow> namespace \<Rightarrow> usage_error + namespace" where
  "consume [] ns = Inr ns"
| "consume (Positional v # rest) ns =
     (case ns_input_uri ns of
        Some _ \<Rightarrow> consume rest (ns\<lparr>ns_extras := ns_extras ns @ [v]\<rparr>)
      | None \<Rightarrow>
          (case gcs_uri v of
             Inl msg \<Rightarrow> Inl (Invalid_type ''input_uri'' msg)
           | Inr u \<Rightarrow> consume rest (ns\<lparr>ns_input_uri := Some u\<rparr>)))"
| "consume (Opt_encoding v # rest) ns =
     (if v \<notin> set encoding_choices then Inl (Invalid_choice ''--encoding'' v)
      else consume rest (ns\<lparr>ns_encoding := v\<rparr>))"
| "consume (Opt_sample_rate v # rest) ns =
     (case py_int v of
        None \<Rightarrow> Inl (Invalid_type ''--sample_rate'' v)
      | Some n \<Rightarrow> consume rest (ns\<lparr>ns_sample_rate := n\<rparr>))"

record args =
  arg_input_uri :: string
  arg_encoding :: string
  arg_sample_rate :: int

text \<open>\<open>parser.parse_args()\<close> for the parser of lines 115 to 123, with the defaults
  \<open>LINEAR16\<close> and \<open>16000\<close>.\<close>

definition parse_args :: "cli_arg list \<Rightarrow> usage_error + args" where
  "parse_args argv =
     (case consume argv \<lparr>ns_input_uri = None, ns_encoding = ''LINEAR16'',
                          ns_sample_rate = 16000, ns_extras = []\<rparr> of
        Inl err \<Rightarrow> Inl err
      | Inr ns \<Rightarrow>
          (case ns_input_uri ns of
             None \<Rightarrow> Inl (Missing_argument ''input_uri'')
           | Some u \<Rightarrow>
               if ns_extras ns \<noteq> [] then Inl (Unrecognized_arguments (ns_extras ns))
               else Inr \<lparr>arg_input_uri = u, arg_encoding = ns_encoding ns,
                         arg_sample_rate = ns_sample_rate ns\<rparr>))"

text \<open>The script as run (lines 114 to 126): a usage error ends it before \<open>main\<close> is
  called; \<open>main\<close> is called with its default language code.\<close>

definition program :: "env \<Rightarrow> cli_arg list \<Rightarrow> (event list \<times> outcome) option" where
  "program e argv =
     (case parse_args argv of
        Inl err \<Rightarrow> Some ([], Usage err)
      | Inr a \<Rightarrow> main e (arg_input_uri a) (arg_encoding a) (arg_sample_rate a) ''en-US'')"

text \<open>The exit status of a finished run: \<open>argparse\<close> exits with 2 on a usage error,
  the interpreter with 1 on an uncaught exception and with 0 otherwise.\<close>

definition exit_status :: "outcome \<Rightarrow> nat" where
  "exit_status out = (case out of Usage _ \<Rightarrow> 2 | Uncaught _ \<Rightarrow> 1 | Finished \<Rightarrow> 0)"

subsection \<open>Auxiliary notions\<close>

text \<open>The events every pass through the loop body produces, the warning it adds for a
  reply, and the way an exception that ends the loop shows in the control value.\<close>

definition query_events :: "string \<Rightarrow> event list" where
  "query_events nm =
     [Print_line ''Waiting for server processing...'', Sleep 1, GetOperation nm DEADLINE_SECS]"

definition warning_events :: "exn + operation \<Rightarrow> event list" where
  "warning_events r =
     (case r of
        Inl _ \<Rightarrow> []
      | Inr operation \<Rightarrow>
          if st_message (op_error operation) \<noteq> []
          then [Print_operation_error (op_error operation)] else [])"

definition control_of :: "exn option \<Rightarrow> control" where
  "control_of r = (case r of None \<Rightarrow> Break | Some x \<Rightarrow> Raised x)"

text \<open>Measures and predicates on event lists: the seconds slept, the deadline an RPC
  was given, the events that only print, the queries among the events, that every RPC
  was given 10 seconds, and that every query comes directly after a sleep of one
  second.\<close>

fun sleep_secs :: "event \<Rightarrow> nat" where
  "sleep_secs (Sleep n) = n"
| "sleep_secs _ = 0"

definition slept :: "event list \<Rightarrow> nat" where
  "slept t = sum_list (map sleep_secs t)"

fun rpc_deadline :: "event \<Rightarrow> nat option" where
  "rpc_deadline (AsyncRecognize _ d) = Some d"
| "rpc_deadline (GetOperation _ d) = Some d"
| "rpc_deadline _ = None"

fun is_output :: "event \<Rightarrow> bool" where
  "is_output (Print_line _) = True"
| "is_output (Print_operation _) = True"
| "is_output (Print_operation_error _) = True"
| "is_output (Print_alternative _ _) = True"
| "is_output _ = False"

definition queries :: "event list \<Rightarrow> event list" where
  "queries t = filter is_GetOperation t"

definition deadlines_fixed :: "event list \<Rightarrow> bool" where
  "deadlines_fixed t = (\<forall>ev\<in>set t. \<forall>d. rpc_deadline ev = Some d \<longrightarrow> d = 10)"

definition sleep_precedes_queries :: "event list \<Rightarrow> bool" where
  "sleep_precedes_queries t =
     (\<forall>i<length t. is_GetOperation (t ! i) \<longrightarrow> 0 < i \<and> t ! (i - 1) = Sleep 1)"

text \<open>Sample data: a reply that is not done and carries an error message (and another
  name), one that is not done and carries an error code without a message, a finished
  reply, and a submission reply that is already done.\<close>

definition pending_with_error :: operation where
  "pending_with_error =
     \<lparr>op_name = ''operations/other'', op_done = False,
      op_error = \<lparr>st_code = 13, st_message = ''internal failure''\<rparr>,
      op_response = Any_other\<rparr>"

definition pending_code_only :: operation where
  "pending_code_only =
     \<lparr>op_name = ''operations/42'', op_done = False,
      op_error = \<lparr>st_code = 13, st_message = []\<rparr>,
      op_response = Any_other\<rparr>"

definition finished_ok :: operation where
  "finished_ok =
     \<lparr>op_name = ''operations/42'', op_done = True,
      op_error = \<lparr>st_code = 0, st_message = []\<rparr>,
      op_response =
        Any_response [\<lparr>alternatives = [\<lparr>confidence = 98 / 100, transcript = ''hello world''\<rparr>]\<rparr>]\<rparr>"

definition submitted_done :: operation where
  "submitted_done =
     \<lparr>op_name = ''operations/42'', op_done = True,
      op_error = \<lparr>st_code = 0, st_message = []\<rparr>,
      op_response = Any_other\<rparr>"

definition scenario_env :: env where
  "scenario_env =
     \<lparr>credentials = Inr ''token'',
      AsyncRecognize_reply = Inr submitted_done,
      GetOperation_reply =
        (\<lambda>i. if i = 0 then Inr pending_with_error
             else if i = 1 then Inr pending_code_only
             else Inr finished_ok)\<rparr>"

definition stalled_env :: env where
  "stalled_env =
     \<lparr>credentials = Inr ''token'',
      AsyncRecognize_reply = Inr submitted_done,
      GetOperation_reply = (\<lambda>i. Inr pending_with_error)\<rparr>"

definition entry_state :: poll_state where
  "entry_state =
     \<lparr>ps_name = ''operations/42'', ps_operation = submitted_done, ps_polls = 0,
      ps_trace = []\<rparr>"

text \<open>The run of the script against \<open>scenario_env\<close>: the events up to the loop,
  the state in which the loop is entered, the events of its three iterations, and all
  events of the run.\<close>

definition scenario_start :: "event list" where
  "scenario_start =
     [Get_access_token [SPEECH_SCOPE],
      Secure_channel ''speech.googleapis.com'' 443 ''Bearer token'',
      AsyncRecognize
        \<lparr>config = \<lparr>encoding = ''FLAC'', sample_rate = 16000, language_code = ''en-US''\<rparr>,
         audio = \<lparr>uri = ''gs://bucket/file.flac''\<rparr>\<rparr> DEADLINE_SECS,
      Print_operation submitted_done]"

definition scenario_entry :: poll_state where
  "scenario_entry =
     \<lparr>ps_name = ''operations/42'', ps_operation = submitted_done, ps_polls = 0,
      ps_trace = scenario_start\<rparr>"

definition scenario_polling :: "event list" where
  "scenario_polling =
     [Print_line ''Waiting for server processing...'', Sleep 1,
      GetOperation ''operations/42'' 10,
      Print_operation_error \<lparr>st_code = 13, st_message = ''internal failure''\<rparr>,
      Print_line ''Waiting for server processing...'', Sleep 1,
      GetOperation ''operations/42'' 10,
      Print_line ''Waiting for server processing...'', Sleep 1,
      GetOperation ''operations/42'' 10]"

definition scenario_trace :: "event list" where
  "scenario_trace =
     scenario_start @ scenario_polling @
     [Print_line ''Result:'', Print_alternative (98 / 100) ''hello world'']"


section \<open>Properties of the loop body and of its iteration\<close>

declare poll_iterations.simps(2) [simp del]

lemma poll_iteration_trace:
  "ps_trace (fst (poll_iteration e s)) =
     ps_trace s @ query_events (ps_name s) @ warning_events (GetOperation_reply e (ps_polls s))"
  by (simp add: poll_iteration_def query_events_def warning_events_def Let_def split: sum.splits)

lemma poll_iteration_name: "ps_name (fst (poll_iteration e s)) = ps_name s"
  by (simp add: poll_iteration_def Let_def split: sum.splits)

lemma poll_iteration_polls: "ps_polls (fst (poll_iteration e s)) = Suc (ps_polls s)"
  by (simp add: poll_iteration_def Let_def split: sum.splits)

lemma poll_iteration_control:
  "snd (poll_iteration e s) =
     (case GetOperation_reply e (ps_polls s) of
        Inl x \<Rightarrow> Raised x
      | Inr operation \<Rightarrow> if op_done operation then Break else Next)"
  by (simp add: poll_iteration_def Let_def split: sum.splits)

lemma poll_iteration_operation:
  "GetOperation_reply e (ps_polls s) = Inr operation \<Longrightarrow>
     ps_operation (fst (poll_iteration e s)) = operation"
  by (simp add: poll_iteration_def Let_def)

lemma poll_iterations_Suc:
  "poll_iterations e (Suc n) s =
     (if snd (poll_iteration e s) = Next then poll_iterations e n (fst (poll_iteration e s))
      else poll_iteration e s)"
  by (cases "poll_iteration e s") (auto simp: poll_iterations.simps(2) split: control.splits)

lemma poll_iterations_name: "ps_name (fst (poll_iterations e n s)) = ps_name s"
  by (induction n arbitrary: s) (simp_all add: poll_iterations_Suc poll_iteration_name)

lemma poll_iterations_stop:
  "snd (poll_iterations e n s) \<noteq> Next \<Longrightarrow> poll_iterations e (Suc n) s = poll_iterations e n s"
proof (induction n arbitrary: s)
  case 0
  then show ?case by simp
next
  case (Suc n)
  show ?case
  proof (cases "snd (poll_iteration e s) = Next")
    case True
    with Suc.prems have "snd (poll_iterations e n (fst (poll_iteration e s))) \<noteq> Next"
      by (simp add: poll_iterations_Suc)
    from Suc.IH [OF this] True show ?thesis
      by (simp add: poll_iterations_Suc)
  next
    case False
    then show ?thesis
      by (simp add: poll_iterations_Suc)
  qed
qed

lemma poll_iterations_step:
  "snd (poll_iterations e n s) = Next \<Longrightarrow>
     poll_iterations e (Suc n) s = poll_iteration e (fst (poll_iterations e n s))"
proof (induction n arbitrary: s)
  case 0
  then show ?case
    by (cases "poll_iteration e s") (auto simp: poll_iterations.simps(2) split: control.splits)
next
  case (Suc n)
  show ?case
  proof (cases "snd (poll_iteration e s) = Next")
    case True
    with Suc.prems have "snd (poll_iterations e n (fst (poll_iteration e s))) = Next"
      by (simp add: poll_iterations_Suc)
    from Suc.IH [OF this] True show ?thesis
      by (simp add: poll_iterations_Suc)
  next
    case False
    with Suc.prems show ?thesis
      by (simp add: poll_iterations_Suc)
  qed
qed

lemma poll_loop_unfold:
  "poll_loop e s =
     (if snd (poll_iteration e s) = Next then poll_loop e (fst (poll_iteration e s))
      else Some (fst (poll_iteration e s),
                 case snd (poll_iteration e s) of Raised x \<Rightarrow> Some x | _ \<Rightarrow> None))"
  by (subst poll_loop.simps) (cases "poll_iteration e s", auto split: control.splits)

lemma poll_loop_of_iterations:
  "snd (poll_iterations e n s) \<noteq> Next \<Longrightarrow>
     poll_loop e s =
       Some (fst (poll_iterations e n s),
             case snd (poll_iterations e n s) of Raised x \<Rightarrow> Some x | _ \<Rightarrow> None)"
proof (induction n arbitrary: s)
  case 0
  then show ?case by simp
next
  case (Suc n)
  show ?case
  proof (cases "snd (poll_iteration e s) = Next")
    case True
    with Suc.prems have "snd (poll_iterations e n (fst (poll_iteration e s))) \<noteq> Next"
      by (simp add: poll_iterations_Suc)
    from Suc.IH [OF this] True show ?thesis
      by (subst poll_loop_unfold) (simp add: poll_iterations_Suc)
  next
    case False
    then show ?thesis
      by (subst poll_loop_unfold) (simp add: poll_iterations_Suc)
  qed
qed

lemma poll_loop_iterations_aux:
  assumes "poll_loop e s = Some y"
  shows "\<exists>n. poll_iterations e n s = (fst y, control_of (snd y))"
proof -
  have step: "\<exists>n. poll_iterations e n s = (fst y, control_of (snd y))"
    if IH: "\<And>e s y. loop e s = Some y \<Longrightarrow>
              \<exists>n. poll_iterations e n s = (fst y, control_of (snd y))"
    and eq: "(case poll_iteration e s of
                (s', Next) \<Rightarrow> loop e s'
              | (s', Break) \<Rightarrow> Some (s', None)
              | (s', Raised x) \<Rightarrow> Some (s', Some x)) = Some y"
    for loop :: "env \<Rightarrow> poll_state \<Rightarrow> (poll_state \<times> exn option) option" and e s y
  proof (cases "poll_iteration e s")
    case (Pair s1 c)
    show ?thesis
    proof (cases c)
      case Next
      with eq Pair have "loop e s1 = Some y"
        by simp
      then obtain n where "poll_iterations e n s1 = (fst y, control_of (snd y))"
        using IH by blast
      with Pair Next have "poll_iterations e (Suc n) s = (fst y, control_of (snd y))"
        by (simp add: poll_iterations.simps(2))
      then show ?thesis by blast
    next
      case Break
      with eq Pair have "poll_iterations e (Suc 0) s = (fst y, control_of (snd y))"
        by (auto simp: control_of_def poll_iterations.simps(2))
      then show ?thesis by blast
    next
      case (Raised x)
      with eq Pair have "poll_iterations e (Suc 0) s = (fst y, control_of (snd y))"
        by (auto simp: control_of_def poll_iterations.simps(2))
      then show ?thesis by blast
    qed
  qed
  show ?thesis
    by (rule poll_loop.raw_induct
        [where P = "\<lambda>e s y. \<exists>n. poll_iterations e n s = (fst y, control_of (snd y))",
          OF step assms])
qed

lemma poll_loop_iterations:
  "poll_loop e s = Some (s', r) \<Longrightarrow> \<exists>n. poll_iterations e n s = (s', control_of r)"
  using poll_loop_iterations_aux [of e s "(s', r)"] by simp

lemma poll_iterations_running:
  "snd (poll_iterations e n s) = Next \<Longrightarrow> ps_polls (fst (poll_iterations e n s)) = ps_polls s + n"
proof (induction n)
  case 0
  then show ?case by simp
next
  case (Suc n)
  show ?case
  proof (cases "snd (poll_iterations e n s) = Next")
    case True
    with Suc.IH show ?thesis
      by (simp add: poll_iterations_step poll_iteration_polls)
  next
    case False
    with Suc.prems show ?thesis
      by (simp add: poll_iterations_stop)
  qed
qed

lemma poll_iterations_polls_le:
  "ps_polls (fst (poll_iterations e n s)) \<le> ps_polls s + n"
proof (induction n)
  case 0
  then show ?case by simp
next
  case (Suc n)
  then show ?case
    by (cases "snd (poll_iterations e n s) = Next")
       (simp_all add: poll_iterations_step poll_iterations_stop poll_iteration_polls)
qed

lemma poll_iterations_pending:
  "(\<forall>i<k. \<exists>operation. GetOperation_reply e (ps_polls s + i) = Inr operation \<and> \<not> op_done operation)
     \<Longrightarrow> snd (poll_iterations e k s) = Next"
proof (induction k)
  case 0
  then show ?case by simp
next
  case (Suc k)
  then have running: "snd (poll_iterations e k s) = Next"
    by simp
  from Suc.prems obtain operation where
    "GetOperation_reply e (ps_polls s + k) = Inr operation" "\<not> op_done operation"
    by blast
  with running show ?case
    by (simp add: poll_iterations_step poll_iteration_control poll_iterations_running)
qed

lemma poll_iterations_done:
  assumes "snd (poll_iterations e k s) = Next"
    and "GetOperation_reply e (ps_polls s + k) = Inr operation"
    and "op_done operation"
  shows "snd (poll_iterations e (Suc k) s) = Break"
    and "ps_operation (fst (poll_iterations e (Suc k) s)) = operation"
    and "ps_polls (fst (poll_iterations e (Suc k) s)) = ps_polls s + Suc k"
  using assms
  by (simp_all add: poll_iterations_step poll_iteration_control poll_iterations_running
      poll_iteration_operation poll_iteration_polls)

lemma poll_iterations_invariant:
  assumes "P s" and "\<And>s. P s \<Longrightarrow> P (fst (poll_iteration e s))"
  shows "P (fst (poll_iterations e n s))"
proof (induction n)
  case 0
  from assms(1) show ?case by simp
next
  case (Suc n)
  with assms(2) show ?case
    by (cases "snd (poll_iterations e n s) = Next")
       (simp_all add: poll_iterations_step poll_iterations_stop)
qed

lemma warning_events_output: "ev \<in> set (warning_events r) \<Longrightarrow> is_output ev"
  by (auto simp: warning_events_def split: sum.splits if_splits)

lemma is_output_simps:
  "is_output ev \<Longrightarrow> \<not> is_GetOperation ev"
  "is_output ev \<Longrightarrow> \<not> is_AsyncRecognize ev"
  "is_output ev \<Longrightarrow> \<not> is_network ev"
  "is_output ev \<Longrightarrow> sleep_secs ev = 0"
  "is_output ev \<Longrightarrow> rpc_deadline ev = None"
  by (cases ev; simp)+

lemma queries_outputs: "\<forall>ev\<in>set t. is_output ev \<Longrightarrow> queries t = []"
  by (auto simp: queries_def filter_empty_conv is_output_simps)

lemma slept_outputs: "\<forall>ev\<in>set t. is_output ev \<Longrightarrow> slept t = 0"
  by (induction t) (simp_all add: slept_def is_output_simps)

lemma queries_append: "queries (t @ t') = queries t @ queries t'"
  by (simp add: queries_def)

lemma slept_append: "slept (t @ t') = slept t + slept t'"
  by (simp add: slept_def)

lemma queries_iteration:
  "queries (ps_trace (fst (poll_iteration e s))) =
     queries (ps_trace s) @ [GetOperation (ps_name s) DEADLINE_SECS]"
  by (simp add: poll_iteration_trace queries_append queries_outputs warning_events_output)
     (simp add: queries_def query_events_def)

lemma slept_iteration:
  "slept (ps_trace (fst (poll_iteration e s))) = Suc (slept (ps_trace s))"
  by (simp add: poll_iteration_trace slept_append slept_outputs warning_events_output)
     (simp add: slept_def query_events_def)

lemma queries_iterations:
  "length (queries (ps_trace (fst (poll_iterations e n s)))) + ps_polls s =
     length (queries (ps_trace s)) + ps_polls (fst (poll_iterations e n s))"
  by (rule poll_iterations_invariant
      [where P = "\<lambda>s'. length (queries (ps_trace s')) + ps_polls s =
                          length (queries (ps_trace s)) + ps_polls s'"])
     (simp_all add: queries_iteration poll_iteration_polls)

lemma slept_iterations:
  "slept (ps_trace (fst (poll_iterations e n s))) + ps_polls s =
     slept (ps_trace s) + ps_polls (fst (poll_iterations e n s))"
  by (rule poll_iterations_invariant
      [where P = "\<lambda>s'. slept (ps_trace s') + ps_polls s = slept (ps_trace s) + ps_polls s'"])
     (simp_all add: slept_iteration poll_iteration_polls)

lemma poll_iterations_stopped_by:
  assumes "GetOperation_reply e (ps_polls s + k) = Inr operation" and "op_done operation"
  shows "snd (poll_iterations e (Suc k) s) \<noteq> Next"
proof (cases "snd (poll_iterations e k s) = Next")
  case True
  from poll_iterations_done(1) [OF True assms] show ?thesis by simp
next
  case False
  then show ?thesis by (simp add: poll_iterations_stop)
qed

lemma poll_loop_returns:
  assumes "GetOperation_reply e (ps_polls s + k) = Inr operation" and "op_done operation"
  shows "\<exists>s' r. poll_loop e s = Some (s', r)
           \<and> ps_polls s' \<le> ps_polls s + Suc k
           \<and> length (queries (ps_trace s')) + ps_polls s = length (queries (ps_trace s)) + ps_polls s'"
  using poll_loop_of_iterations [OF poll_iterations_stopped_by [OF assms]]
    poll_iterations_polls_le [of e "Suc k" s] queries_iterations [of e "Suc k" s]
  by blast

lemma main_prologue_Inr:
  assumes "main_prologue e u enc rate lang = (t0, Inr s0)"
  obtains token submitted where
    "credentials e = Inr token" "AsyncRecognize_reply e = Inr submitted" "fits_int32 rate"
    "t0 = [Get_access_token [SPEECH_SCOPE],
           Secure_channel ''speech.googleapis.com'' 443 (''Bearer '' @ token),
           AsyncRecognize
             \<lparr>config = \<lparr>encoding = enc, sample_rate = rate, language_code = lang\<rparr>,
              audio = \<lparr>uri = u\<rparr>\<rparr> DEADLINE_SECS,
           Print_operation submitted]"
    "s0 = \<lparr>ps_name = op_name submitted, ps_operation = submitted, ps_polls = 0, ps_trace = t0\<rparr>"
  using assms
  by (auto simp: main_prologue_def make_channel_def recognize_request_def RecognitionConfig_def
      Let_def split: sum.splits if_splits)

lemma main_epilogue_output: "ev \<in> set (fst (main_epilogue operation)) \<Longrightarrow> is_output ev"
  by (auto simp: main_epilogue_def print_result_def split: any.splits if_splits)

lemma main_Some_cases:
  assumes "main e u enc rate lang = Some (t, out)"
  obtains (early) x where "main_prologue e u enc rate lang = (t, Inl x)"
  | (looped) t0 s0 n t' where
      "main_prologue e u enc rate lang = (t0, Inr s0)"
      "snd (poll_iterations e n s0) \<noteq> Next"
      "t = ps_trace (fst (poll_iterations e n s0)) @ t'"
      "\<forall>ev\<in>set t'. is_output ev"
proof (cases "main_prologue e u enc rate lang")
  case (Pair t0 r0)
  show ?thesis
  proof (cases r0)
    case (Inl x)
    with Pair assms have "main_prologue e u enc rate lang = (t, Inl x)"
      by (simp add: main_def)
    then show ?thesis by (rule early)
  next
    case (Inr s0)
    with Pair have pro: "main_prologue e u enc rate lang = (t0, Inr s0)"
      by simp
    with assms obtain s' r where loop: "poll_loop e s0 = Some (s', r)"
      by (auto simp: main_def split: option.splits)
    then obtain n where n: "poll_iterations e n s0 = (s', control_of r)"
      using poll_loop_iterations by blast
    then have stopped: "snd (poll_iterations e n s0) \<noteq> Next"
      by (simp add: control_of_def split: option.splits)
    from assms pro loop have "\<exists>t'. t = ps_trace s' @ t' \<and> (\<forall>ev\<in>set t'. is_output ev)"
      by (cases r; cases "main_epilogue (ps_operation s')")
         (use main_epilogue_output [of _ "ps_operation s'"] in \<open>auto simp: main_def\<close>)
    with n obtain t' where "t = ps_trace (fst (poll_iterations e n s0)) @ t'"
      "\<forall>ev\<in>set t'. is_output ev"
      by auto
    with pro stopped show ?thesis by (rule looped)
  qed
qed

lemma queries_prologue:
  "main_prologue e u enc rate lang = (t, r) \<Longrightarrow> queries t = []"
  by (auto simp: main_prologue_def make_channel_def Let_def queries_def split: sum.splits)

lemma main_returns:
  assumes "GetOperation_reply e k = Inr operation" and "op_done operation"
  shows "\<exists>t out. main e u enc rate lang = Some (t, out) \<and> length (queries t) \<le> Suc k"
proof (cases "main_prologue e u enc rate lang")
  case (Pair t0 r0)
  note empty = queries_prologue [OF Pair]
  show ?thesis
  proof (cases r0)
    case (Inl x)
    with Pair empty show ?thesis
      by (simp add: main_def)
  next
    case (Inr s0)
    with Pair have pro: "main_prologue e u enc rate lang = (t0, Inr s0)"
      by simp
    then have s0: "ps_polls s0 = 0" "ps_trace s0 = t0"
      by (auto elim!: main_prologue_Inr)
    with assms(1) have "GetOperation_reply e (ps_polls s0 + k) = Inr operation"
      by simp
    from poll_loop_returns [OF this assms(2)] s0 empty
    obtain s' r where loop: "poll_loop e s0 = Some (s', r)" and "ps_polls s' \<le> Suc k"
      and "length (queries (ps_trace s')) = ps_polls s'"
      by auto
    then have bound: "length (queries (ps_trace s')) \<le> Suc k"
      by simp
    show ?thesis
    proof (cases r)
      case (Some x)
      with pro loop bound show ?thesis
        by (simp add: main_def)
    next
      case None
      obtain t' r' where epi: "main_epilogue (ps_operation s') = (t', r')"
        by (cases "main_epilogue (ps_operation s')")
      then have "queries t' = []"
        using main_epilogue_output [of _ "ps_operation s'"] by (intro queries_outputs) auto
      with None pro loop bound epi show ?thesis
        by (simp add: main_def queries_append)
    qed
  qed
qed

lemma poll_loop_never_returns:
  assumes "\<forall>i. \<exists>operation. GetOperation_reply e (ps_polls s + i) = Inr operation \<and> \<not> op_done operation"
  shows "poll_loop e s = None"
proof (cases "poll_loop e s")
  case None
  then show ?thesis .
next
  case (Some y)
  then obtain n where "poll_iterations e n s = (fst y, control_of (snd y))"
    using poll_loop_iterations_aux by blast
  then have "snd (poll_iterations e n s) \<noteq> Next"
    by (simp add: control_of_def split: option.splits)
  moreover from assms have "snd (poll_iterations e n s) = Next"
    by (intro poll_iterations_pending) simp
  ultimately show ?thesis by simp
qed

lemma deadlines_fixed_iterations:
  "deadlines_fixed (ps_trace s) \<Longrightarrow> deadlines_fixed (ps_trace (fst (poll_iterations e n s)))"
proof (rule poll_iterations_invariant [where P = "\<lambda>s. deadlines_fixed (ps_trace s)"])
  fix s :: poll_state
  assume "deadlines_fixed (ps_trace s)"
  then show "deadlines_fixed (ps_trace (fst (poll_iteration e s)))"
    using warning_events_output [of _ "GetOperation_reply e (ps_polls s)"]
    by (auto simp: deadlines_fixed_def poll_iteration_trace query_events_def DEADLINE_SECS_def
        is_output_simps)
qed

lemma submissions_iterations:
  "filter is_AsyncRecognize (ps_trace (fst (poll_iterations e n s))) =
     filter is_AsyncRecognize (ps_trace s)"
proof (rule poll_iterations_invariant
    [where P = "\<lambda>s'. filter is_AsyncRecognize (ps_trace s') = filter is_AsyncRecognize (ps_trace s)"])
  fix s' :: poll_state
  assume "filter is_AsyncRecognize (ps_trace s') = filter is_AsyncRecognize (ps_trace s)"
  moreover have "filter is_AsyncRecognize (warning_events r) = []" for r
    by (auto simp: filter_empty_conv is_output_simps dest: warning_events_output)
  ultimately show "filter is_AsyncRecognize (ps_trace (fst (poll_iteration e s'))) =
      filter is_AsyncRecognize (ps_trace s)"
    by (simp add: poll_iteration_trace) (simp add: query_events_def)
qed simp

lemma sleep_precedes_outputs:
  "sleep_precedes_queries t \<Longrightarrow> \<forall>ev\<in>set t'. is_output ev \<Longrightarrow> sleep_precedes_queries (t @ t')"
  unfolding sleep_precedes_queries_def
proof (intro allI impI)
  fix i
  assume old: "\<forall>i<length t. is_GetOperation (t ! i) \<longrightarrow> 0 < i \<and> t ! (i - 1) = Sleep 1"
    and out: "\<forall>ev\<in>set t'. is_output ev"
    and i: "i < length (t @ t')" and q: "is_GetOperation ((t @ t') ! i)"
  have "i < length t"
  proof (rule ccontr)
    assume "\<not> i < length t"
    with i have "(t @ t') ! i \<in> set t'"
      by (simp add: nth_append)
    with out q show False
      by (auto simp: is_output_simps)
  qed
  with old q show "0 < i \<and> (t @ t') ! (i - 1) = Sleep 1"
    by (auto simp: nth_append)
qed

lemma sleep_precedes_query_events:
  assumes "sleep_precedes_queries t"
  shows "sleep_precedes_queries (t @ query_events nm)"
  unfolding sleep_precedes_queries_def
proof (intro allI impI)
  fix i
  assume i: "i < length (t @ query_events nm)" and q: "is_GetOperation ((t @ query_events nm) ! i)"
  show "0 < i \<and> (t @ query_events nm) ! (i - 1) = Sleep 1"
  proof (cases "i < length t")
    case True
    with assms q show ?thesis
      by (auto simp: sleep_precedes_queries_def nth_append)
  next
    case False
    then obtain j where j: "i = length t + j"
      by (metis le_add_diff_inverse not_less)
    with i have "j < 3"
      by (simp add: query_events_def)
    then consider "j = 0" | "j = 1" | "j = 2"
      by linarith
    then show ?thesis
    proof cases
      case 1
      with j q show ?thesis by (simp add: query_events_def nth_append)
    next
      case 2
      with j q show ?thesis by (simp add: query_events_def nth_append)
    next
      case 3
      with j show ?thesis by (simp add: query_events_def nth_append)
    qed
  qed
qed

lemma sleep_precedes_iterations:
  "sleep_precedes_queries (ps_trace s) \<Longrightarrow>
     sleep_precedes_queries (ps_trace (fst (poll_iterations e n s)))"
proof (rule poll_iterations_invariant [where P = "\<lambda>s. sleep_precedes_queries (ps_trace s)"])
  fix s :: poll_state
  assume "sleep_precedes_queries (ps_trace s)"
  then have "sleep_precedes_queries
      ((ps_trace s @ query_events (ps_name s)) @ warning_events (GetOperation_reply e (ps_polls s)))"
    by (intro sleep_precedes_outputs sleep_precedes_query_events ballI warning_events_output)
  then show "sleep_precedes_queries (ps_trace (fst (poll_iteration e s)))"
    by (simp add: poll_iteration_trace)
qed

lemma sleep_precedes_prologue:
  "main_prologue e u enc rate lang = (t, r) \<Longrightarrow> sleep_precedes_queries t"
  by (auto simp: main_prologue_def make_channel_def Let_def sleep_precedes_queries_def
      nth_Cons' split: sum.splits if_splits)

lemma queries_named_iterations:
  "ps_polls s \<le> ps_polls (fst (poll_iterations e n s)) \<and>
   queries (ps_trace (fst (poll_iterations e n s))) =
     queries (ps_trace s) @
     replicate (ps_polls (fst (poll_iterations e n s)) - ps_polls s)
       (GetOperation (ps_name s) DEADLINE_SECS)"
proof (rule poll_iterations_invariant
    [where P = "\<lambda>s'. ps_name s' = ps_name s \<and> ps_polls s \<le> ps_polls s' \<and>
       queries (ps_trace s') =
         queries (ps_trace s) @
         replicate (ps_polls s' - ps_polls s) (GetOperation (ps_name s) DEADLINE_SECS)",
      THEN conjunct2])
  fix s' :: poll_state
  assume "ps_name s' = ps_name s \<and> ps_polls s \<le> ps_polls s' \<and>
       queries (ps_trace s') =
         queries (ps_trace s) @
         replicate (ps_polls s' - ps_polls s) (GetOperation (ps_name s) DEADLINE_SECS)"
  then show "ps_name (fst (poll_iteration e s')) = ps_name s \<and>
       ps_polls s \<le> ps_polls (fst (poll_iteration e s')) \<and>
       queries (ps_trace (fst (poll_iteration e s'))) =
         queries (ps_trace s) @
         replicate (ps_polls (fst (poll_iteration e s')) - ps_polls s)
           (GetOperation (ps_name s) DEADLINE_SECS)"
    by (simp add: poll_iteration_name poll_iteration_polls queries_iteration Suc_diff_le
        replicate_append_same)
qed simp

lemma trace_grows_iterations:
  "prefix (ps_trace s) (ps_trace (fst (poll_iterations e n s)))"
  by (rule poll_iterations_invariant [where P = "\<lambda>s'. prefix (ps_trace s) (ps_trace s')"])
     (auto simp: poll_iteration_trace intro: prefix_order.trans)

lemma first_iteration_events:
  "prefix (ps_trace s @ query_events (ps_name s)) (ps_trace (fst (poll_iterations e (Suc n) s)))"
proof -
  have one: "prefix (ps_trace s @ query_events (ps_name s)) (ps_trace (fst (poll_iteration e s)))"
    by (simp add: poll_iteration_trace)
  show ?thesis
  proof (cases "snd (poll_iteration e s) = Next")
    case True
    with one trace_grows_iterations [of "fst (poll_iteration e s)" e n] show ?thesis
      by (auto simp: poll_iterations_Suc intro: prefix_order.trans)
  next
    case False
    with one show ?thesis
      by (simp add: poll_iterations_Suc)
  qed
qed

section \<open>Properties of the command line\<close>

lemma consume_keeps:
  "consume argv ns = Inr ns' \<Longrightarrow>
     (ns_input_uri ns \<noteq> None \<longrightarrow> ns_input_uri ns' \<noteq> None) \<and>
     (ns_extras ns \<noteq> [] \<longrightarrow> ns_extras ns' \<noteq> [])"
  by (induction argv ns rule: consume.induct)
     (auto split: option.splits sum.splits if_splits)

lemma consume_bad_uri:
  "Positional u \<in> set argv \<Longrightarrow> \<not> startswith u ''gs://'' \<Longrightarrow> consume argv ns = Inr ns' \<Longrightarrow>
     ns_input_uri ns' \<noteq> None \<and> ns_extras ns' \<noteq> []"
proof (induction argv ns rule: consume.induct)
  case (1 ns)
  then show ?case by simp
next
  case (2 v rest ns)
  show ?case
  proof (cases "ns_input_uri ns")
    case None
    show ?thesis
    proof (cases "startswith v ''gs://''")
      case True
      with "2.prems" have "Positional u \<in> set rest"
        by auto
      with 2 None True show ?thesis
        by (simp add: gcs_uri_def)
    next
      case False
      with "2.prems" None show ?thesis
        by (simp add: gcs_uri_def)
    qed
  next
    case (Some w)
    show ?thesis
    proof (cases "v = u")
      case True
      from "2.prems"(3) Some
      have "consume rest (ns\<lparr>ns_extras := ns_extras ns @ [v]\<rparr>) = Inr ns'"
        by simp
      from consume_keeps [OF this] Some show ?thesis
        by simp
    next
      case False
      with "2.prems" have "Positional u \<in> set rest"
        by auto
      with 2 Some show ?thesis
        by simp
    qed
  qed
next
  case (3 v rest ns)
  then show ?case
    by (auto split: if_splits)
next
  case (4 v rest ns)
  then show ?case
    by (auto split: option.splits)
qed

lemma parse_args_bad_uri:
  "Positional u \<in> set argv \<Longrightarrow> \<not> startswith u ''gs://'' \<Longrightarrow> \<exists>err. parse_args argv = Inl err"
  by (auto simp: parse_args_def split: sum.splits option.splits dest: consume_bad_uri)



lemma main_prologue_submits:
  "credentials e = Inr token \<Longrightarrow> fits_int32 rate \<Longrightarrow>
     filter is_AsyncRecognize (fst (main_prologue e u enc rate lang)) =
       [AsyncRecognize
          \<lparr>config = \<lparr>encoding = enc, sample_rate = rate, language_code = lang\<rparr>,
           audio = \<lparr>uri = u\<rparr>\<rparr> DEADLINE_SECS]"
  by (simp add: main_prologue_def make_channel_def recognize_request_def RecognitionConfig_def
      Let_def split: sum.splits)

lemma main_out_of_range:
  "credentials e = Inr token \<Longrightarrow> \<not> fits_int32 rate \<Longrightarrow>
     main e u enc rate lang =
       Some ([Get_access_token [SPEECH_SCOPE],
              Secure_channel ''speech.googleapis.com'' 443 (''Bearer '' @ token)],
             Uncaught (Exn ''ValueError''))"
  by (simp add: main_def main_prologue_def make_channel_def recognize_request_def
      RecognitionConfig_def)

lemma main_submissions:
  assumes "main e u enc rate lang = Some (t, out)"
  shows "filter is_AsyncRecognize t =
           filter is_AsyncRecognize (fst (main_prologue e u enc rate lang))"
  using assms
proof (cases rule: main_Some_cases)
  case (early x)
  then show ?thesis by simp
next
  case (looped t0 s0 n t')
  from looped(1) have "ps_trace s0 = t0"
    by (auto elim!: main_prologue_Inr)
  moreover from looped(4) have "filter is_AsyncRecognize t' = []"
    by (auto simp: filter_empty_conv is_output_simps)
  ultimately show ?thesis
    using looped(1,3) by (simp add: submissions_iterations)
qed

section \<open>The sample runs\<close>

lemma scenario_prologue:
  "main_prologue scenario_env ''gs://bucket/file.flac'' ''FLAC'' 16000 ''en-US'' =
     (scenario_start, Inr scenario_entry)"
  by (simp add: main_prologue_def make_channel_def recognize_request_def RecognitionConfig_def
      fits_int32_def scenario_env_def scenario_start_def scenario_entry_def submitted_done_def
      Let_def)

lemma stalled_prologue:
  "main_prologue stalled_env ''gs://bucket/file.flac'' ''FLAC'' 16000 ''en-US'' =
     (scenario_start, Inr scenario_entry)"
  by (simp add: main_prologue_def make_channel_def recognize_request_def RecognitionConfig_def
      fits_int32_def stalled_env_def scenario_start_def scenario_entry_def submitted_done_def
      Let_def)

lemma scenario_iterations:
  "poll_iterations scenario_env (Suc (Suc (Suc 0))) scenario_entry =
     (\<lparr>ps_name = ''operations/42'', ps_operation = finished_ok, ps_polls = 3,
       ps_trace = scenario_start @ scenario_polling\<rparr>, Break)"
  by (simp add: poll_iterations.simps(2) poll_iteration_def Let_def scenario_env_def
      scenario_entry_def scenario_polling_def pending_with_error_def pending_code_only_def
      finished_ok_def
      DEADLINE_SECS_def)

lemma scenario_loop:
  "poll_loop scenario_env scenario_entry =
     Some (\<lparr>ps_name = ''operations/42'', ps_operation = finished_ok, ps_polls = 3,
            ps_trace = scenario_start @ scenario_polling\<rparr>, None)"
  using poll_loop_of_iterations [of scenario_env "Suc (Suc (Suc 0))" scenario_entry]
  by (simp add: scenario_iterations)

lemma scenario_main:
  "main scenario_env ''gs://bucket/file.flac'' ''FLAC'' 16000 ''en-US'' =
     Some (scenario_trace, Finished)"
  by (simp add: main_def scenario_prologue scenario_loop main_epilogue_def finished_ok_def
      print_result_def finish_def scenario_trace_def)


section \<open>The claims\<close>

text \<open>
  C1. Whatever the sequence of polled handles: if the first \<open>k\<close> replies are handles
  that are not done (with or without an error message) and the next reply is a done
  handle, the loop is still running after each of the first \<open>k\<close> iterations and is
  left in iteration \<open>k + 1\<close>, with that done handle as the current operation. A
  non-empty error message on a handle that is not done does not end the loop.
\<close>

theorem poll_loop_exits_at_first_done:
  "(\<forall>i<k. \<exists>operation. GetOperation_reply e (ps_polls s + i) = Inr operation \<and> \<not> op_done operation)
     \<Longrightarrow> GetOperation_reply e (ps_polls s + k) = Inr last_reply
     \<Longrightarrow> op_done last_reply
     \<Longrightarrow> (\<forall>i\<le>k. snd (poll_iterations e i s) = Next)
         \<and> snd (poll_iterations e (Suc k) s) = Break
         \<and> poll_loop e s = Some (fst (poll_iterations e (Suc k) s), None)
         \<and> ps_polls (fst (poll_iterations e (Suc k) s)) = ps_polls s + Suc k
         \<and> ps_operation (fst (poll_iterations e (Suc k) s)) = last_reply"
proof -
  assume pending:
    "\<forall>i<k. \<exists>operation. GetOperation_reply e (ps_polls s + i) = Inr operation \<and> \<not> op_done operation"
  assume reply: "GetOperation_reply e (ps_polls s + k) = Inr last_reply"
  assume finished: "op_done last_reply"
  have running: "snd (poll_iterations e i s) = Next" if "i \<le> k" for i
    using pending that by (intro poll_iterations_pending) auto
  then have at_k: "snd (poll_iterations e k s) = Next"
    by simp
  note last = poll_iterations_done [OF at_k reply finished]
  have "poll_loop e s = Some (fst (poll_iterations e (Suc k) s), None)"
    using poll_loop_of_iterations [of e "Suc k" s] last(1) by simp
  with running last show ?thesis
    by simp
qed

theorem poll_loop_exits_at_first_done_witness:
  "GetOperation_reply scenario_env (ps_polls entry_state + 0) = Inr pending_with_error
   \<and> GetOperation_reply scenario_env (ps_polls entry_state + 1) = Inr pending_code_only
   \<and> \<not> op_done pending_with_error
   \<and> \<not> op_done pending_code_only
   \<and> st_message (op_error pending_with_error) \<noteq> []
   \<and> GetOperation_reply scenario_env (ps_polls entry_state + 2) = Inr finished_ok
   \<and> op_done finished_ok
   \<and> snd (poll_iterations scenario_env 2 entry_state) = Next
   \<and> poll_loop scenario_env entry_state =
       Some (fst (poll_iterations scenario_env (Suc 2) entry_state), None)
   \<and> ps_operation (fst (poll_iterations scenario_env (Suc 2) entry_state)) = finished_ok"
proof -
  have pending:
    "\<forall>i<2. \<exists>operation.
       GetOperation_reply scenario_env (ps_polls entry_state + i) = Inr operation
       \<and> \<not> op_done operation"
    by (simp add: scenario_env_def entry_state_def pending_with_error_def pending_code_only_def
        less_Suc_eq numeral_2_eq_2)
  have reply: "GetOperation_reply scenario_env (ps_polls entry_state + 2) = Inr finished_ok"
    by (simp add: scenario_env_def entry_state_def)
  have finished: "op_done finished_ok"
    by (simp add: finished_ok_def)
  have message: "st_message (op_error pending_with_error) \<noteq> []"
    by (simp add: pending_with_error_def)
  have second: "GetOperation_reply scenario_env (ps_polls entry_state + 1) = Inr pending_code_only"
    by (simp add: scenario_env_def entry_state_def)
  from poll_loop_exits_at_first_done [OF pending reply finished]
  show ?thesis
    using reply finished message second
    by (simp add: scenario_env_def entry_state_def pending_with_error_def pending_code_only_def)
qed

text \<open>
  C2. Once a polled handle with \<open>done = true\<close> has been received, no further
  \<open>GetOperation\<close> query is issued. If the reply at position \<open>k\<close> of the reply
  sequence is a done handle, then every run of \<open>main\<close> returns and its events hold
  at most \<open>k + 1\<close> queries; and the loop, entered in any state that has issued at most
  \<open>k\<close> queries, returns having issued at most \<open>k + 1\<close>, one query for each
  iteration it made. With \<open>k\<close> the number of queries already issued, the loop ends
  in the very iteration that receives the done handle.
\<close>

theorem no_query_after_done:
  "GetOperation_reply e k = Inr operation \<Longrightarrow> op_done operation \<Longrightarrow>
     (\<exists>t out. main e u enc rate lang = Some (t, out) \<and> length (filter is_GetOperation t) \<le> Suc k)
     \<and> (ps_polls s \<le> k \<longrightarrow>
          (\<exists>s' r. poll_loop e s = Some (s', r)
             \<and> ps_polls s' \<le> Suc k
             \<and> length (filter is_GetOperation (ps_trace s')) + ps_polls s =
                 length (filter is_GetOperation (ps_trace s)) + ps_polls s'))"
proof -
  assume reply: "GetOperation_reply e k = Inr operation" and finished: "op_done operation"
  have "\<exists>s' r. poll_loop e s = Some (s', r)
             \<and> ps_polls s' \<le> Suc k
             \<and> length (queries (ps_trace s')) + ps_polls s =
                 length (queries (ps_trace s)) + ps_polls s'"
    if "ps_polls s \<le> k"
  proof -
    from that reply have "GetOperation_reply e (ps_polls s + (k - ps_polls s)) = Inr operation"
      by simp
    from poll_loop_returns [OF this finished] that show ?thesis
      by (simp add: Suc_diff_le)
  qed
  with main_returns [OF reply finished, of u enc rate lang] show ?thesis
    by (simp add: queries_def)
qed

theorem no_query_after_done_witness:
  "GetOperation_reply scenario_env 2 = Inr finished_ok
   \<and> op_done finished_ok
   \<and> ps_polls entry_state \<le> 2
   \<and> (\<exists>t out. main scenario_env ''gs://bucket/file.flac'' ''FLAC'' 16000 ''en-US'' = Some (t, out)
         \<and> length (filter is_GetOperation t) \<le> Suc 2)
   \<and> (\<exists>s' r. poll_loop scenario_env entry_state = Some (s', r) \<and> ps_polls s' \<le> Suc 2)"
proof -
  have reply: "GetOperation_reply scenario_env 2 = Inr finished_ok"
    by (simp add: scenario_env_def)
  have finished: "op_done finished_ok"
    by (simp add: finished_ok_def)
  have entry: "ps_polls entry_state \<le> 2"
    by (simp add: entry_state_def)
  from no_query_after_done [OF reply finished, where u = "''gs://bucket/file.flac''"
      and enc = "''FLAC''" and rate = 16000 and lang = "''en-US''" and s = entry_state]
  show ?thesis
    using reply finished entry by blast
qed

text \<open>
  C3. A plain argument that does not start with \<open>gs://\<close> is rejected before any
  network call. Whatever else is on the command line, the run ends with a usage error,
  exit status 2 and no event at all (no credential lookup, channel, submission or
  query); when the argument comes first, the error is the one \<open>_gcs_uri\<close> raises.
\<close>

theorem bad_uri_rejected_before_network:
  "Positional u \<in> set argv \<Longrightarrow> \<not> startswith u ''gs://'' \<Longrightarrow>
     (\<exists>err. program e argv = Some ([], Usage err) \<and> exit_status (Usage err) = 2)
     \<and> program e (Positional u # rest) =
         Some ([], Usage (Invalid_type ''input_uri''
                           ''Cloud Storage uri must be of the form gs://bucket/path/''))"
proof -
  assume member: "Positional u \<in> set argv" and bad: "\<not> startswith u ''gs://''"
  from parse_args_bad_uri [OF member bad] obtain err where "parse_args argv = Inl err"
    by blast
  then have "program e argv = Some ([], Usage err) \<and> exit_status (Usage err) = 2"
    by (simp add: program_def exit_status_def)
  moreover from bad have "program e (Positional u # rest) =
         Some ([], Usage (Invalid_type ''input_uri''
                           ''Cloud Storage uri must be of the form gs://bucket/path/''))"
    by (simp add: program_def parse_args_def gcs_uri_def)
  ultimately show ?thesis
    by blast
qed

theorem bad_uri_rejected_before_network_witness:
  "Positional ''not-a-gcs-path'' \<in> set [Opt_encoding ''FLAC'', Positional ''not-a-gcs-path'']
   \<and> \<not> startswith ''not-a-gcs-path'' ''gs://''
   \<and> program scenario_env [Opt_encoding ''FLAC'', Positional ''not-a-gcs-path''] =
       Some ([], Usage (Invalid_type ''input_uri''
                         ''Cloud Storage uri must be of the form gs://bucket/path/''))
   \<and> program scenario_env [Positional ''not-a-gcs-path'', Opt_sample_rate ''16000''] =
       Some ([], Usage (Invalid_type ''input_uri''
                         ''Cloud Storage uri must be of the form gs://bucket/path/''))"
proof -
  have member: "Positional ''not-a-gcs-path'' \<in> set [Opt_encoding ''FLAC'', Positional ''not-a-gcs-path'']"
    by simp
  have bad: "\<not> startswith ''not-a-gcs-path'' ''gs://''"
    by (simp add: startswith_def)
  have run: "program scenario_env [Opt_encoding ''FLAC'', Positional ''not-a-gcs-path''] =
       Some ([], Usage (Invalid_type ''input_uri''
                         ''Cloud Storage uri must be of the form gs://bucket/path/''))"
    by (simp add: program_def parse_args_def gcs_uri_def startswith_def encoding_choices_def)
  from bad_uri_rejected_before_network [OF member bad, of scenario_env "[Opt_sample_rate ''16000'']"]
  show ?thesis
    using member bad run by simp
qed

text \<open>
  C4. Every \<open>GetOperation\<close> query, the first one included, is issued right after a
  sleep of one second: in the events of a run observed after any number of iterations,
  and in the events of a run of \<open>main\<close> that has returned, each query has a
  predecessor and that predecessor is \<open>Sleep 1\<close>.
\<close>

theorem sleep_before_every_query:
  "(main_prologue e u enc rate lang = (t0, Inr s0) \<longrightarrow>
      sleep_precedes_queries (ps_trace (fst (poll_iterations e n s0))))
   \<and> (main e u enc rate lang = Some (t, out) \<longrightarrow> sleep_precedes_queries t)"
proof (intro conjI impI)
  assume pro: "main_prologue e u enc rate lang = (t0, Inr s0)"
  then have "ps_trace s0 = t0"
    by (auto elim!: main_prologue_Inr)
  with sleep_precedes_prologue [OF pro]
  show "sleep_precedes_queries (ps_trace (fst (poll_iterations e n s0)))"
    by (intro sleep_precedes_iterations) simp
next
  assume "main e u enc rate lang = Some (t, out)"
  then show "sleep_precedes_queries t"
  proof (cases rule: main_Some_cases)
    case (early x)
    then show ?thesis by (rule sleep_precedes_prologue)
  next
    case (looped t0 s0 n t')
    from looped(1) have "ps_trace s0 = t0"
      by (auto elim!: main_prologue_Inr)
    with sleep_precedes_prologue [OF looped(1)]
    have "sleep_precedes_queries (ps_trace (fst (poll_iterations e n s0)))"
      by (intro sleep_precedes_iterations) simp
    with looped(3,4) show ?thesis
      by (simp add: sleep_precedes_outputs)
  qed
qed

theorem sleep_before_every_query_witness:
  "main_prologue scenario_env ''gs://bucket/file.flac'' ''FLAC'' 16000 ''en-US'' =
     (scenario_start, Inr scenario_entry)
   \<and> main scenario_env ''gs://bucket/file.flac'' ''FLAC'' 16000 ''en-US'' =
       Some (scenario_trace, Finished)
   \<and> sleep_precedes_queries (ps_trace (fst (poll_iterations scenario_env (Suc (Suc (Suc 0))) scenario_entry)))
   \<and> sleep_precedes_queries scenario_trace
   \<and> scenario_trace ! 10 = GetOperation ''operations/42'' 10
   \<and> scenario_trace ! 9 = Sleep 1"
  using sleep_before_every_query [of scenario_env "''gs://bucket/file.flac''" "''FLAC''" 16000
      "''en-US''" scenario_start scenario_entry "Suc (Suc (Suc 0))" scenario_trace Finished]
  by (simp add: scenario_prologue scenario_main)
     (simp add: scenario_trace_def scenario_start_def scenario_polling_def)

text \<open>
  C5. If no reply of the service is ever a done handle (every reply is a handle that is
  not done), the loop never returns and neither does \<open>main\<close>: after any number
  \<open>n\<close> of iterations the loop is still running, has issued \<open>n\<close> queries and has
  slept \<open>n\<close> seconds in total, so neither the iteration count nor the elapsed time is
  bounded. There is one submission, and every RPC among the events (the submission and
  each query) carries the deadline of 10 seconds.
\<close>

theorem poll_loop_unbounded:
  "(\<forall>i. \<exists>operation. GetOperation_reply e i = Inr operation \<and> \<not> op_done operation) \<Longrightarrow>
   main_prologue e u enc rate lang = (t0, Inr s0) \<Longrightarrow>
     main e u enc rate lang = None
     \<and> poll_loop e s0 = None
     \<and> snd (poll_iterations e n s0) = Next
     \<and> length (filter is_GetOperation (ps_trace (fst (poll_iterations e n s0)))) = n
     \<and> slept (ps_trace (fst (poll_iterations e n s0))) = n
     \<and> length (filter is_AsyncRecognize (ps_trace (fst (poll_iterations e n s0)))) = 1
     \<and> deadlines_fixed (ps_trace (fst (poll_iterations e n s0)))
     \<and> DEADLINE_SECS = 10"
proof -
  assume pending: "\<forall>i. \<exists>operation. GetOperation_reply e i = Inr operation \<and> \<not> op_done operation"
  assume pro: "main_prologue e u enc rate lang = (t0, Inr s0)"
  then have s0: "ps_polls s0 = 0" "ps_trace s0 = t0" and t0: "queries t0 = []" "slept t0 = 0"
    "length (filter is_AsyncRecognize t0) = 1" "deadlines_fixed t0"
    by (auto elim!: main_prologue_Inr simp: queries_def slept_def deadlines_fixed_def DEADLINE_SECS_def)
  from pending s0 have never: "poll_loop e s0 = None"
    by (intro poll_loop_never_returns) simp
  with pro have "main e u enc rate lang = None"
    by (simp add: main_def)
  moreover from pending s0 have running: "snd (poll_iterations e n s0) = Next"
    by (intro poll_iterations_pending) simp
  moreover from poll_iterations_running [OF running] s0
  have polls: "ps_polls (fst (poll_iterations e n s0)) = n"
    by simp
  with queries_iterations [of e n s0] s0 t0
  have "length (filter is_GetOperation (ps_trace (fst (poll_iterations e n s0)))) = n"
    by (simp add: queries_def)
  moreover from polls slept_iterations [of e n s0] s0 t0
  have "slept (ps_trace (fst (poll_iterations e n s0))) = n"
    by simp
  moreover from s0 t0 have "length (filter is_AsyncRecognize (ps_trace (fst (poll_iterations e n s0)))) = 1"
    by (simp add: submissions_iterations)
  moreover from s0 t0 have "deadlines_fixed (ps_trace (fst (poll_iterations e n s0)))"
    by (intro deadlines_fixed_iterations) simp
  ultimately show ?thesis
    using never by (simp add: DEADLINE_SECS_def)
qed

theorem poll_loop_unbounded_witness:
  "main_prologue stalled_env ''gs://bucket/file.flac'' ''FLAC'' 16000 ''en-US'' =
     (scenario_start, Inr scenario_entry)
   \<and> GetOperation_reply stalled_env 7 = Inr pending_with_error
   \<and> \<not> op_done pending_with_error
   \<and> main stalled_env ''gs://bucket/file.flac'' ''FLAC'' 16000 ''en-US'' = None
   \<and> snd (poll_iterations stalled_env 1000 scenario_entry) = Next
   \<and> slept (ps_trace (fst (poll_iterations stalled_env 1000 scenario_entry))) = 1000"
proof -
  have pending:
    "\<forall>i. \<exists>operation. GetOperation_reply stalled_env i = Inr operation \<and> \<not> op_done operation"
    by (simp add: stalled_env_def pending_with_error_def)
  have reply: "GetOperation_reply stalled_env 7 = Inr pending_with_error"
    by (simp add: stalled_env_def)
  have running: "\<not> op_done pending_with_error"
    by (simp add: pending_with_error_def)
  from poll_loop_unbounded [OF pending stalled_prologue, of 1000]
  show ?thesis
    using reply running by (simp add: stalled_prologue)
qed




text \<open>
  C7, as claimed, does not hold for every sample rate the command line accepts. The
  command line \<open>gs://bucket/file.flac --sample_rate 2147483648\<close> parses, with the
  encoding \<open>LINEAR16\<close>; the rate does not fit the 32-bit field of the request, the
  construction of the request raises, and the run ends after the channel is made without
  any submission.
\<close>

theorem request_not_built_out_of_range:
  "''LINEAR16'' \<in> set encoding_choices
   \<and> parse_args [Positional ''gs://bucket/file.flac'', Opt_sample_rate ''2147483648''] =
       Inr \<lparr>arg_input_uri = ''gs://bucket/file.flac'', arg_encoding = ''LINEAR16'',
            arg_sample_rate = 2147483648\<rparr>
   \<and> recognize_request ''gs://bucket/file.flac'' ''LINEAR16'' 2147483648 ''en-US'' =
       Inl (Exn ''ValueError'')
   \<and> program scenario_env [Positional ''gs://bucket/file.flac'', Opt_sample_rate ''2147483648''] =
       Some ([Get_access_token [SPEECH_SCOPE],
              Secure_channel ''speech.googleapis.com'' 443 ''Bearer token''],
             Uncaught (Exn ''ValueError''))"
proof -
  have converted: "py_int ''2147483648'' = Some 2147483648"
    by (simp add: py_int_def strip_def is_space_def is_digit_def)
  have parsed: "parse_args [Positional ''gs://bucket/file.flac'', Opt_sample_rate ''2147483648''] =
       Inr \<lparr>arg_input_uri = ''gs://bucket/file.flac'', arg_encoding = ''LINEAR16'',
            arg_sample_rate = 2147483648\<rparr>"
    by (simp add: parse_args_def gcs_uri_def startswith_def converted)
  have raised: "recognize_request ''gs://bucket/file.flac'' ''LINEAR16'' 2147483648 ''en-US'' =
       Inl (Exn ''ValueError'')"
    by (simp add: recognize_request_def RecognitionConfig_def fits_int32_def)
  have token: "credentials scenario_env = Inr ''token''"
    by (simp add: scenario_env_def)
  have "\<not> fits_int32 2147483648"
    by (simp add: fits_int32_def)
  from main_out_of_range [OF token this]
  have "program scenario_env [Positional ''gs://bucket/file.flac'', Opt_sample_rate ''2147483648''] =
       Some ([Get_access_token [SPEECH_SCOPE],
              Secure_channel ''speech.googleapis.com'' 443 ''Bearer token''],
             Uncaught (Exn ''ValueError''))"
    by (simp add: program_def parsed)
  with parsed raised show ?thesis
    by (simp add: encoding_choices_def)
qed

text \<open>
  C7, amended. For each of the five encoding choices and every sample rate that fits the
  32-bit field of the request (from \<open>-2147483648\<close> to \<open>2147483647\<close>), once the
  channel exists the request is built with exactly the given encoding, sample rate and
  language code in its config and the given uri as its audio; it is the one submission
  among the events up to the loop, sent with the fixed deadline, and the one submission
  among the events of every run that returns. For a sample rate outside that range the
  construction of the request raises and the run ends after the channel is made, with
  nothing submitted.
\<close>

theorem request_echoes_inputs:
  "enc \<in> set encoding_choices \<Longrightarrow> credentials e = Inr token \<Longrightarrow>
     (fits_int32 rate \<longrightarrow>
        recognize_request input_uri enc rate lang =
          Inr \<lparr>config = \<lparr>encoding = enc, sample_rate = rate, language_code = lang\<rparr>,
               audio = \<lparr>uri = input_uri\<rparr>\<rparr>
        \<and> filter is_AsyncRecognize (fst (main_prologue e input_uri enc rate lang)) =
            [AsyncRecognize
               \<lparr>config = \<lparr>encoding = enc, sample_rate = rate, language_code = lang\<rparr>,
                audio = \<lparr>uri = input_uri\<rparr>\<rparr> DEADLINE_SECS]
        \<and> (main e input_uri enc rate lang = Some (t, out) \<longrightarrow>
             filter is_AsyncRecognize t =
               [AsyncRecognize
                  \<lparr>config = \<lparr>encoding = enc, sample_rate = rate, language_code = lang\<rparr>,
                   audio = \<lparr>uri = input_uri\<rparr>\<rparr> DEADLINE_SECS]))
     \<and> (\<not> fits_int32 rate \<longrightarrow>
          recognize_request input_uri enc rate lang = Inl (Exn ''ValueError'')
          \<and> main e input_uri enc rate lang =
              Some ([Get_access_token [SPEECH_SCOPE],
                     Secure_channel ''speech.googleapis.com'' 443 (''Bearer '' @ token)],
                    Uncaught (Exn ''ValueError'')))"
proof -
  assume token: "credentials e = Inr token"
  have "filter is_AsyncRecognize t =
      [AsyncRecognize
         \<lparr>config = \<lparr>encoding = enc, sample_rate = rate, language_code = lang\<rparr>,
          audio = \<lparr>uri = input_uri\<rparr>\<rparr> DEADLINE_SECS]"
    if "fits_int32 rate" "main e input_uri enc rate lang = Some (t, out)"
    using main_submissions [OF that(2)] main_prologue_submits [OF token that(1)] by simp
  then show ?thesis
    using main_prologue_submits [OF token, of rate input_uri enc lang]
      main_out_of_range [OF token, of rate input_uri enc lang]
    by (simp add: recognize_request_def RecognitionConfig_def)
qed

theorem request_echoes_inputs_witness:
  "''FLAC'' \<in> set encoding_choices
   \<and> credentials scenario_env = Inr ''token''
   \<and> fits_int32 16000
   \<and> main scenario_env ''gs://bucket/file.flac'' ''FLAC'' 16000 ''en-US'' =
       Some (scenario_trace, Finished)
   \<and> filter is_AsyncRecognize scenario_trace =
       [AsyncRecognize
          \<lparr>config = \<lparr>encoding = ''FLAC'', sample_rate = 16000, language_code = ''en-US''\<rparr>,
           audio = \<lparr>uri = ''gs://bucket/file.flac''\<rparr>\<rparr> 10]
   \<and> \<not> fits_int32 2147483648
   \<and> main scenario_env ''gs://bucket/file.flac'' ''FLAC'' 2147483648 ''en-US'' =
       Some ([Get_access_token [SPEECH_SCOPE],
              Secure_channel ''speech.googleapis.com'' 443 ''Bearer token''],
             Uncaught (Exn ''ValueError''))"
proof -
  have choice: "''FLAC'' \<in> set encoding_choices"
    by (simp add: encoding_choices_def)
  have token: "credentials scenario_env = Inr ''token''"
    by (simp add: scenario_env_def)
  have fits: "fits_int32 16000" "\<not> fits_int32 2147483648"
    by (simp_all add: fits_int32_def)
  from request_echoes_inputs [OF choice token, of 16000 "''gs://bucket/file.flac''" "''en-US''"
      scenario_trace Finished]
    request_echoes_inputs [OF choice token, of 2147483648 "''gs://bucket/file.flac''" "''en-US''"]
  show ?thesis
    using choice token fits by (simp add: scenario_main DEADLINE_SECS_def)
qed

text \<open>
  C8. Every \<open>GetOperation\<close> query carries the name of the handle the submission
  returned, which is read once before the loop: after any number of iterations the
  queries issued so far are that many copies of the query by the submitted name with
  the fixed deadline, and so is every query among the events of a run that has returned,
  whatever names the polled handles bear.
\<close>

theorem queries_carry_submitted_name:
  "main_prologue e u enc rate lang = (t0, Inr s0) \<Longrightarrow>
   AsyncRecognize_reply e = Inr submitted \<Longrightarrow>
     filter is_GetOperation (ps_trace (fst (poll_iterations e n s0))) =
       replicate (ps_polls (fst (poll_iterations e n s0)))
         (GetOperation (op_name submitted) DEADLINE_SECS)
     \<and> (main e u enc rate lang = Some (t, out) \<longrightarrow>
          (\<forall>ev\<in>set t. is_GetOperation ev \<longrightarrow> ev = GetOperation (op_name submitted) DEADLINE_SECS))"
proof -
  assume pro: "main_prologue e u enc rate lang = (t0, Inr s0)"
    and sub: "AsyncRecognize_reply e = Inr submitted"
  from pro sub have s0: "ps_polls s0 = 0" "ps_trace s0 = t0" "ps_name s0 = op_name submitted"
    by (auto elim!: main_prologue_Inr)
  have named: "queries (ps_trace (fst (poll_iterations e m s0))) =
       replicate (ps_polls (fst (poll_iterations e m s0)))
         (GetOperation (op_name submitted) DEADLINE_SECS)" for m
    using queries_named_iterations [of s0 e m] s0 queries_prologue [OF pro] by simp
  have "ev = GetOperation (op_name submitted) DEADLINE_SECS"
    if run: "main e u enc rate lang = Some (t, out)" and ev: "ev \<in> set t" "is_GetOperation ev" for ev
    using run
  proof (cases rule: main_Some_cases)
    case (early x)
    with pro show ?thesis by simp
  next
    case (looped t0' s0' m t')
    with pro have eq: "s0' = s0"
      by simp
    from ev looped(3,4) have "ev \<in> set (queries (ps_trace (fst (poll_iterations e m s0'))))"
      by (auto simp: queries_def is_output_simps)
    with named [of m] eq show ?thesis
      by simp
  qed
  with named [of n] show ?thesis
    by (simp add: queries_def)
qed

theorem queries_carry_submitted_name_witness:
  "main_prologue scenario_env ''gs://bucket/file.flac'' ''FLAC'' 16000 ''en-US'' =
     (scenario_start, Inr scenario_entry)
   \<and> AsyncRecognize_reply scenario_env = Inr submitted_done
   \<and> GetOperation_reply scenario_env 0 = Inr pending_with_error
   \<and> op_name pending_with_error \<noteq> op_name submitted_done
   \<and> main scenario_env ''gs://bucket/file.flac'' ''FLAC'' 16000 ''en-US'' =
       Some (scenario_trace, Finished)
   \<and> filter is_GetOperation (ps_trace (fst (poll_iterations scenario_env (Suc (Suc (Suc 0))) scenario_entry))) =
       replicate 3 (GetOperation (op_name submitted_done) DEADLINE_SECS)
   \<and> scenario_trace ! 10 = GetOperation (op_name submitted_done) DEADLINE_SECS"
proof -
  have sub: "AsyncRecognize_reply scenario_env = Inr submitted_done"
    by (simp add: scenario_env_def)
  have first: "GetOperation_reply scenario_env 0 = Inr pending_with_error"
    by (simp add: scenario_env_def)
  have other: "op_name pending_with_error \<noteq> op_name submitted_done"
    by (simp add: pending_with_error_def submitted_done_def)
  have member: "scenario_trace ! 10 \<in> set scenario_trace" "is_GetOperation (scenario_trace ! 10)"
    by (simp_all add: scenario_trace_def scenario_start_def scenario_polling_def)
  from queries_carry_submitted_name [OF scenario_prologue sub, of "Suc (Suc (Suc 0))" scenario_trace Finished]
  show ?thesis
    using sub first other member
    by (simp add: scenario_prologue scenario_main scenario_iterations)
qed

text \<open>
  C9. The loop does not look at the handle the submission returned. Every run that
  reaches the loop goes on with the waiting line, a sleep of one second and a query: these
  are the next events after one or more iterations, and of every run that has returned.
  The first pass through the body decides and prints the same whatever the operation
  held on entry, so a submission reply that is already done changes nothing.
\<close>

theorem first_query_always_issued:
  "main_prologue e u enc rate lang = (t0, Inr s0) \<Longrightarrow>
     prefix (t0 @ [Print_line ''Waiting for server processing...'', Sleep 1,
                   GetOperation (ps_name s0) DEADLINE_SECS])
       (ps_trace (fst (poll_iterations e (Suc n) s0)))
     \<and> (main e u enc rate lang = Some (t, out) \<longrightarrow>
          prefix (t0 @ [Print_line ''Waiting for server processing...'', Sleep 1,
                        GetOperation (ps_name s0) DEADLINE_SECS]) t)
     \<and> snd (poll_iteration e (s0\<lparr>ps_operation := other\<rparr>)) = snd (poll_iteration e s0)
     \<and> ps_trace (fst (poll_iteration e (s0\<lparr>ps_operation := other\<rparr>))) =
         ps_trace (fst (poll_iteration e s0))"
proof -
  assume pro: "main_prologue e u enc rate lang = (t0, Inr s0)"
  then have s0: "ps_trace s0 = t0"
    by (auto elim!: main_prologue_Inr)
  have first: "prefix (t0 @ [Print_line ''Waiting for server processing...'', Sleep 1,
                   GetOperation (ps_name s0) DEADLINE_SECS])
       (ps_trace (fst (poll_iterations e (Suc m) s0)))" for m
    using first_iteration_events [of s0 e m] s0 by (simp add: query_events_def)
  have "prefix (t0 @ [Print_line ''Waiting for server processing...'', Sleep 1,
                        GetOperation (ps_name s0) DEADLINE_SECS]) t"
    if "main e u enc rate lang = Some (t, out)"
    using that
  proof (cases rule: main_Some_cases)
    case (early x)
    with pro show ?thesis by simp
  next
    case (looped t0' s0' m t')
    with pro have eq: "s0' = s0"
      by simp
    from looped(2) obtain m' where "m = Suc m'"
      by (cases m) simp_all
    with first [of m'] looped(3) eq show ?thesis
      by (auto intro: prefix_order.trans)
  qed
  moreover have "snd (poll_iteration e (s0\<lparr>ps_operation := other\<rparr>)) = snd (poll_iteration e s0)"
    by (simp add: poll_iteration_control)
  moreover have "ps_trace (fst (poll_iteration e (s0\<lparr>ps_operation := other\<rparr>))) =
         ps_trace (fst (poll_iteration e s0))"
    by (simp add: poll_iteration_trace)
  ultimately show ?thesis
    using first [of n] by simp
qed

theorem first_query_always_issued_witness:
  "main_prologue scenario_env ''gs://bucket/file.flac'' ''FLAC'' 16000 ''en-US'' =
     (scenario_start, Inr scenario_entry)
   \<and> ps_operation scenario_entry = submitted_done
   \<and> op_done submitted_done
   \<and> main scenario_env ''gs://bucket/file.flac'' ''FLAC'' 16000 ''en-US'' =
       Some (scenario_trace, Finished)
   \<and> prefix (scenario_start @ [Print_line ''Waiting for server processing...'', Sleep 1,
                                GetOperation ''operations/42'' DEADLINE_SECS]) scenario_trace"
proof -
  have entry: "ps_operation scenario_entry = submitted_done" "ps_name scenario_entry = ''operations/42''"
    by (simp_all add: scenario_entry_def)
  have finished: "op_done submitted_done"
    by (simp add: submitted_done_def)
  from first_query_always_issued [OF scenario_prologue, of 0 scenario_trace Finished]
  show ?thesis
    using entry finished by (simp add: scenario_prologue scenario_main)
qed

text \<open>
  C10. In an iteration whose query returns a handle, the warning for the handle's error
  is among the events of that iteration if and only if the error's message is not the
  empty string; any warning printed in the iteration is the one for that handle's error
  and has a non-empty message. An error with a code but an empty message prints nothing.
\<close>

theorem warning_iff_message:
  "GetOperation_reply e (ps_polls s) = Inr operation \<Longrightarrow>
     (Print_operation_error (op_error operation)
        \<in> set (drop (length (ps_trace s)) (ps_trace (fst (poll_iteration e s))))
      \<longleftrightarrow> st_message (op_error operation) \<noteq> [])
     \<and> (\<forall>st. Print_operation_error st
               \<in> set (drop (length (ps_trace s)) (ps_trace (fst (poll_iteration e s))))
             \<longrightarrow> st = op_error operation \<and> st_message st \<noteq> [])"
  by (simp add: poll_iteration_trace query_events_def warning_events_def)

theorem warning_iff_message_witness:
  "GetOperation_reply scenario_env (ps_polls (scenario_entry\<lparr>ps_polls := 1\<rparr>)) = Inr pending_code_only
   \<and> st_code (op_error pending_code_only) = 13
   \<and> st_message (op_error pending_code_only) = []
   \<and> Print_operation_error (op_error pending_code_only)
        \<notin> set (drop (length (ps_trace (scenario_entry\<lparr>ps_polls := 1\<rparr>)))
                 (ps_trace (fst (poll_iteration scenario_env (scenario_entry\<lparr>ps_polls := 1\<rparr>)))))"
proof -
  have reply: "GetOperation_reply scenario_env (ps_polls (scenario_entry\<lparr>ps_polls := 1\<rparr>)) = Inr pending_code_only"
    by (simp add: scenario_env_def)
  have empty: "st_code (op_error pending_code_only) = 13" "st_message (op_error pending_code_only) = []"
    by (simp_all add: pending_code_only_def)
  from warning_iff_message [OF reply]
  show ?thesis
    using reply empty by simp
qed

end
